theory Spec2Isabelle
  imports Complex_Main "HOL-Library.Sublist"
begin

chapter \<open>Retrieval and generation pipeline with provider fallback\<close>

text \<open>
  A shallow embedding of the provider fallback gateway (\<^verbatim>\<open>services/multi_api_service.py\<close>),
  the vector store's document cache (\<^verbatim>\<open>services/vector_store.py\<close>) and the query
  processor (\<^verbatim>\<open>services/query_processor.py\<close>).

  Conventions. Python objects with mutable fields are records that are passed in and
  returned. An exception is a value \<open>Inl e\<close> of a sum type. Network services (the vendor
  SDKs, the local Ollama server, the retrieval back end) are parameters: an environment
  record says what each of them returns or raises. The wall clock and the log of provider
  invocations are kept in a record \<open>world\<close> that is threaded through the calls. Strings
  are lists of 8-bit characters, read as the code points 0 to 255; floats are real
  numbers. Coroutines are run one at a time, to completion.
\<close>

section \<open>Strings\<close>

text \<open>
  \<open>str.isspace\<close> and the regular expression class \<^verbatim>\<open>\s\<close> agree on the code points below
  256: tab, line feed, vertical tab, form feed, carriage return, the separators 0x1C to
  0x1F, the space, NEL (0x85) and the no-break space (0xA0).
\<close>

definition is_space :: "char \<Rightarrow> bool" where
  "is_space c \<longleftrightarrow>
     c \<in> set [CHR 0x09, CHR 0x0A, CHR 0x0B, CHR 0x0C, CHR 0x0D, CHR 0x1C, CHR 0x1D,
               CHR 0x1E, CHR 0x1F, CHR 0x20, CHR 0x85, CHR 0xA0]"

text \<open>
  \<open>str.lower\<close> on the code points below 256: the letters A to Z and the Latin-1 capitals
  0xC0 to 0xDE (without the multiplication sign 0xD7) move up by 32.
\<close>

definition lower_char :: "char \<Rightarrow> char" where
  "lower_char c =
     (let n = (of_char c :: nat)
      in if (65 \<le> n \<and> n \<le> 90) \<or> (192 \<le> n \<and> n \<le> 222 \<and> n \<noteq> 215)
         then char_of (n + 32) else c)"

definition lower :: "string \<Rightarrow> string" where
  "lower s = map lower_char s"

text \<open>\<open>str.strip()\<close> removes the white space at both ends.\<close>

definition strip :: "string \<Rightarrow> string" where
  "strip s = rev (dropWhile is_space (rev (dropWhile is_space s)))"

text \<open>
  \<^verbatim>\<open>re.sub(r'X+', ' ', s)\<close> for a character class X: every maximal run of characters
  of the class is replaced by one space.
\<close>

function sub_runs :: "(char \<Rightarrow> bool) \<Rightarrow> string \<Rightarrow> string" where
  "sub_runs p [] = []"
| "sub_runs p (c # cs) =
     (if p c then CHR '' '' # sub_runs p (dropWhile p cs) else c # sub_runs p cs)"
  by pat_completeness auto
termination
  by (relation "measure (\<lambda>(p, s). length s)") (auto simp: length_dropWhile_le less_Suc_eq_le)

section \<open>Answer post-processing\<close>

text \<open>
  \<^verbatim>\<open>_post_process_answer\<close> (query_processor.py, lines 247 to 268). Its first step is
  \<^verbatim>\<open>re.sub(r'^(Answer:|Response:)\s*', '', answer, flags=re.IGNORECASE)\<close>: a prefix that
  equals one of the two words up to letter case is removed together with the white space
  after it. Then runs of newlines and runs of white space are collapsed, a full stop is
  appended unless the text is empty or already ends with a full stop, an exclamation mark
  or a question mark, and the result is stripped.
\<close>

definition remove_prefix :: "string \<Rightarrow> string" where
  "remove_prefix answer =
     (if lower (take 7 answer) = ''answer:'' then dropWhile is_space (drop 7 answer)
      else if lower (take 9 answer) = ''response:'' then dropWhile is_space (drop 9 answer)
      else answer)"

definition endswith_punct :: "string \<Rightarrow> bool" where
  "endswith_punct s \<longleftrightarrow> s \<noteq> [] \<and> last s \<in> set [CHR ''.'', CHR ''!'', CHR ''?'']"

definition post_process_answer :: "string \<Rightarrow> string" where
  "post_process_answer answer =
     (let a1 = remove_prefix answer;
          a2 = sub_runs (\<lambda>c. c = CHR 0x0A) a1;
          a3 = sub_runs is_space a2;
          a4 = (if a3 \<noteq> [] \<and> \<not> endswith_punct a3 then a3 @ ''.'' else a3)
      in strip a4)"


section \<open>Provider fallback gateway\<close>

text \<open>
  A Python exception is its class name and its message (\<open>str(e)\<close>). A provider
  descriptor is the dictionary built by \<^verbatim>\<open>setup_providers\<close> (lines 52 to 102), whose
  \<^verbatim>\<open>"type"\<close> is one of four strings. The gateway is the mutable part of a
  \<^verbatim>\<open>MultiAPIService\<close> object (lines 31 to 37); the cooldown dictionary maps provider
  names to expiry times.
\<close>

datatype exn = Exn (exn_class: string) (exn_message: string)

datatype provider_type = Gemini | OpenAI | Perplexity | HuggingFace

record provider =
  name :: string
  ptype :: provider_type
  api_key :: string
  model :: string
  embedding_model :: "string option"

record gateway =
  api_providers :: "provider list"
  current_provider_index :: nat
  rate_limit_cooldown :: "string \<rightharpoonup> real"
  local_llm_available :: bool

text \<open>
  The world outside the gateway: \<open>now\<close> is what \<^verbatim>\<open>time.time()\<close> returns, and
  \<open>calls\<close> lists, oldest first, the registry indices of the providers whose adapter has
  been invoked. The outcome of an external call is the time it took together with the
  value it returned or the exception it raised.
\<close>

record world =
  now :: real
  calls :: "nat list"

type_synonym 'r outcome = "real \<times> (exn + 'r)"

text \<open>
  \<^verbatim>\<open>is_provider_available\<close> (lines 104 to 114) and \<^verbatim>\<open>set_provider_cooldown\<close>
  (lines 116 to 121); \<open>t\<close> is the reading of the clock they take.
\<close>

definition is_provider_available :: "provider \<Rightarrow> real \<Rightarrow> gateway \<Rightarrow> bool \<times> gateway" where
  "is_provider_available provider t g =
     (case rate_limit_cooldown g (name provider) of
        Some cooldown_until \<Rightarrow>
          if t < cooldown_until then (False, g)
          else (True, g\<lparr>rate_limit_cooldown := (rate_limit_cooldown g)(name provider := None)\<rparr>)
      | None \<Rightarrow> (True, g))"

definition set_provider_cooldown :: "provider \<Rightarrow> int \<Rightarrow> real \<Rightarrow> gateway \<Rightarrow> gateway" where
  "set_provider_cooldown provider cooldown_minutes t g =
     g\<lparr>rate_limit_cooldown :=
         (rate_limit_cooldown g)(name provider \<mapsto> t + of_int (cooldown_minutes * 60))\<rparr>"

text \<open>
  The test of lines 165 and 215,
  \<^verbatim>\<open>any(term in error_msg for term in ["rate limit", "quota", "429", "too many requests"])\<close>,
  where \<open>in\<close> on strings is the contiguous-substring relation \<^const>\<open>sublist\<close>.
\<close>

definition rate_limit_terms :: "string list" where
  "rate_limit_terms = [''rate limit'', ''quota'', ''429'', ''too many requests'']"

definition is_rate_limit_error :: "string \<Rightarrow> bool" where
  "is_rate_limit_error error_msg = list_ex (\<lambda>t. sublist t error_msg) rate_limit_terms"

text \<open>
  The exception raised after the loop (lines 174 and 224), and the one Python raises for
  an index outside a list.
\<close>

definition all_providers_failed :: exn where
  "all_providers_failed = Exn ''Exception'' ''All API providers failed or are rate limited''"

definition index_error :: exn where
  "index_error = Exn ''IndexError'' ''list index out of range''"

text \<open>
  The loop \<^verbatim>\<open>for attempt in range(len(self.api_providers))\<close>, which \<^verbatim>\<open>generate_embeddings\<close>
  (lines 138 to 172) and \<^verbatim>\<open>generate_text\<close> (lines 191 to 222) both contain: the two copies
  differ only in the adapter called for each provider type, given here as \<open>attempt\<close>
  (\<open>None\<close> when the branch for that type invokes nothing and moves on, as the Perplexity
  branch of the embedding loop does). The second argument is the number of iterations
  left. A provider in cooldown is skipped and the cursor moves on; a result is returned
  at once, the cursor staying where it is; an exception is classified by its lower-cased
  message, a rate limit puts the provider in cooldown for 5 minutes from the time of the
  failure, and the cursor moves on.
\<close>

definition next_provider :: "gateway \<Rightarrow> gateway" where
  "next_provider g =
     g\<lparr>current_provider_index := (current_provider_index g + 1) mod length (api_providers g)\<rparr>"

fun provider_loop ::
  "(provider \<Rightarrow> 'r outcome option) \<Rightarrow> nat \<Rightarrow> gateway \<Rightarrow> world \<Rightarrow> (exn + 'r) \<times> gateway \<times> world"
where
  "provider_loop attempt 0 g w = (Inl all_providers_failed, g, w)"
| "provider_loop attempt (Suc n) g w =
     (if current_provider_index g < length (api_providers g) then
        (let provider = api_providers g ! current_provider_index g;
             (available, g1) = is_provider_available provider (now w) g
         in if \<not> available then provider_loop attempt n (next_provider g1) w
            else
              (case attempt provider of
                 None \<Rightarrow> provider_loop attempt n (next_provider g1) w
               | Some (elapsed, outcome) \<Rightarrow>
                   (let w1 = w\<lparr>now := now w + elapsed,
                                calls := calls w @ [current_provider_index g]\<rparr>
                    in case outcome of
                         Inr result \<Rightarrow> (Inr result, g1, w1)
                       | Inl e \<Rightarrow>
                           (let error_msg = lower (exn_message e);
                                g2 = (if is_rate_limit_error error_msg
                                      then set_provider_cooldown provider 5 (now w1) g1
                                      else g1)
                            in provider_loop attempt n (next_provider g2) w1))))
      else (Inl index_error, g, w))"

text \<open>
  The services behind the gateway, for the payload of one call: the local model and,
  for each provider descriptor, the vendor's text and embedding calls.
\<close>

record env =
  local_text :: "string outcome"
  local_embed :: "real list list outcome"
  vendor_text :: "provider \<Rightarrow> string outcome"
  vendor_embed :: "provider \<Rightarrow> real list list outcome"

text \<open>
  The normalisation step of the embedding adapters (lines 251 to 257 and 301 to 307,
  and \<^verbatim>\<open>embedding_service.py\<close> lines 169 to 175): \<^verbatim>\<open>np.vstack\<close> raises on an empty
  list; otherwise each row is divided by its L2 norm plus 1e-8.
\<close>

definition norm2 :: "real list \<Rightarrow> real" where
  "norm2 v = sqrt (sum_list (map (\<lambda>x. x * x) v))"

definition normalize_row :: "real list \<Rightarrow> real list" where
  "normalize_row v = map (\<lambda>x. x / (norm2 v + 1 / 10 ^ 8)) v"

definition normalize_rows :: "real list list \<Rightarrow> exn + real list list" where
  "normalize_rows embeddings =
     (if embeddings = [] then Inl (Exn ''ValueError'' ''need at least one array to concatenate'')
      else Inr (map normalize_row embeddings))"

text \<open>
  The adapters. The vendor call either raises or delivers a value; the embedding
  adapters then normalise, the text adapters strip (Gemini raises on an empty text), and
  the Hugging Face adapters raise without calling anything (lines 330 to 334 and 384 to
  388).
\<close>

definition generate_gemini_embeddings :: "env \<Rightarrow> provider \<Rightarrow> real list list outcome" where
  "generate_gemini_embeddings env provider =
     (case vendor_embed env provider of
        (elapsed, Inl e) \<Rightarrow> (elapsed, Inl e)
      | (elapsed, Inr embeddings) \<Rightarrow> (elapsed, normalize_rows embeddings))"

definition generate_openai_embeddings :: "env \<Rightarrow> provider \<Rightarrow> real list list outcome" where
  "generate_openai_embeddings env provider =
     (case vendor_embed env provider of
        (elapsed, Inl e) \<Rightarrow> (elapsed, Inl e)
      | (elapsed, Inr embeddings) \<Rightarrow> (elapsed, normalize_rows embeddings))"

definition generate_huggingface_embeddings :: "real list list outcome" where
  "generate_huggingface_embeddings =
     (0, Inl (Exn ''Exception'' ''Hugging Face embeddings not implemented yet''))"

definition generate_gemini_text :: "env \<Rightarrow> provider \<Rightarrow> string outcome" where
  "generate_gemini_text env provider =
     (case vendor_text env provider of
        (elapsed, Inl e) \<Rightarrow> (elapsed, Inl e)
      | (elapsed, Inr text) \<Rightarrow>
          if text \<noteq> [] then (elapsed, Inr (strip text))
          else (elapsed, Inl (Exn ''Exception'' ''Empty response from Gemini'')))"

definition generate_openai_text :: "env \<Rightarrow> provider \<Rightarrow> string outcome" where
  "generate_openai_text env provider =
     (case vendor_text env provider of
        (elapsed, Inl e) \<Rightarrow> (elapsed, Inl e)
      | (elapsed, Inr text) \<Rightarrow> (elapsed, Inr (strip text)))"

definition generate_perplexity_text :: "env \<Rightarrow> provider \<Rightarrow> string outcome" where
  "generate_perplexity_text env provider =
     (case vendor_text env provider of
        (elapsed, Inl e) \<Rightarrow> (elapsed, Inl e)
      | (elapsed, Inr text) \<Rightarrow> (elapsed, Inr (strip text)))"

definition generate_huggingface_text :: "string outcome" where
  "generate_huggingface_text =
     (0, Inl (Exn ''Exception'' ''Hugging Face text generation not implemented yet''))"

text \<open>The dispatch on the provider type inside the two loops.\<close>

definition text_attempt :: "env \<Rightarrow> provider \<Rightarrow> string outcome option" where
  "text_attempt env provider =
     (case ptype provider of
        Gemini \<Rightarrow> Some (generate_gemini_text env provider)
      | OpenAI \<Rightarrow> Some (generate_openai_text env provider)
      | Perplexity \<Rightarrow> Some (generate_perplexity_text env provider)
      | HuggingFace \<Rightarrow> Some generate_huggingface_text)"

definition embed_attempt :: "env \<Rightarrow> provider \<Rightarrow> real list list outcome option" where
  "embed_attempt env provider =
     (case ptype provider of
        Gemini \<Rightarrow> Some (generate_gemini_embeddings env provider)
      | OpenAI \<Rightarrow> Some (generate_openai_embeddings env provider)
      | Perplexity \<Rightarrow> None
      | HuggingFace \<Rightarrow> Some generate_huggingface_embeddings)"

text \<open>
  \<^verbatim>\<open>LocalLLMService.generate_embeddings\<close> (local_llm_service.py, lines 91 to 131) raises
  when no embedding came back and normalises otherwise.
\<close>

definition local_generate_embeddings :: "env \<Rightarrow> real list list outcome" where
  "local_generate_embeddings env =
     (case local_embed env of
        (elapsed, Inl e) \<Rightarrow> (elapsed, Inl e)
      | (elapsed, Inr embeddings) \<Rightarrow>
          if embeddings = [] then (elapsed, Inl (Exn ''Exception'' ''No embeddings generated''))
          else (elapsed, Inr (map normalize_row embeddings)))"

text \<open>
  \<^verbatim>\<open>generate_embeddings\<close> (lines 123 to 174) and \<^verbatim>\<open>generate_text\<close> (lines 176 to 224):
  the local model first when it is available, then the loop over the registry.
\<close>

definition generate_embeddings ::
  "env \<Rightarrow> gateway \<Rightarrow> world \<Rightarrow> (exn + real list list) \<times> gateway \<times> world" where
  "generate_embeddings env g w =
     (if local_llm_available g then
        (let (elapsed, outcome) = local_generate_embeddings env;
             w1 = w\<lparr>now := now w + elapsed\<rparr>
         in case outcome of
              Inr embeddings \<Rightarrow> (Inr embeddings, g, w1)
            | Inl e \<Rightarrow> provider_loop (embed_attempt env) (length (api_providers g)) g w1)
      else provider_loop (embed_attempt env) (length (api_providers g)) g w)"

definition generate_text ::
  "env \<Rightarrow> gateway \<Rightarrow> world \<Rightarrow> (exn + string) \<times> gateway \<times> world" where
  "generate_text env g w =
     (if local_llm_available g then
        (let (elapsed, outcome) = local_text env;
             w1 = w\<lparr>now := now w + elapsed\<rparr>
         in case outcome of
              Inr answer \<Rightarrow> (Inr answer, g, w1)
            | Inl e \<Rightarrow> provider_loop (text_attempt env) (length (api_providers g)) g w1)
      else provider_loop (text_attempt env) (length (api_providers g)) g w)"

section \<open>Vector store\<close>

text \<open>
  \<^verbatim>\<open>DocumentChunk\<close> (models/schemas.py) and the fields of \<^verbatim>\<open>VectorStore\<close>
  (vector_store.py, lines 19 to 25); \<open>index\<close> is the list of vectors held by the FAISS
  index, in insertion order. The embedding service and the disk are external: the
  environment says what \<^verbatim>\<open>encode\<close> returns for a batch of texts and whether writing the
  index succeeds, and the world records every batch handed to \<^verbatim>\<open>encode\<close> and the last
  snapshot written.
\<close>

record chunk =
  chunk_id :: string
  content :: string
  metadata :: "(string \<times> string) list"
  embedding :: "real list option"

record vector_store =
  index :: "real list list"
  chunks :: "chunk list"
  dimension :: nat
  document_hash :: "string option"

record store_env =
  encode :: "string list \<Rightarrow> exn + real list list"
  save_ok :: bool

record store_world =
  encode_calls :: "string list list"
  saved :: "(real list list \<times> chunk list) option"

text \<open>
  \<^verbatim>\<open>_save_index\<close> (lines 174 to 189) swallows its own exceptions. A Python value used as
  a condition: \<open>None\<close> and the empty string are false.
\<close>

definition save_index :: "store_env \<Rightarrow> vector_store \<Rightarrow> store_world \<Rightarrow> store_world" where
  "save_index env vs w = (if save_ok env then w\<lparr>saved := Some (index vs, chunks vs)\<rparr> else w)"

definition truthy :: "string option \<Rightarrow> bool" where
  "truthy h = (case h of None \<Rightarrow> False | Some s \<Rightarrow> s \<noteq> [])"

text \<open>
  \<^verbatim>\<open>add_documents\<close> (lines 49 to 96). The handler at the end re-raises, so an exception
  leaves the store as the failing statement found it. \<^verbatim>\<open>embeddings[i]\<close> raises when there
  are fewer rows than chunks, and \<^verbatim>\<open>index.add\<close> rejects rows of the wrong dimension.
\<close>

definition add_documents ::
  "store_env \<Rightarrow> chunk list \<Rightarrow> string option \<Rightarrow> vector_store \<Rightarrow> store_world
     \<Rightarrow> (exn + unit) \<times> vector_store \<times> store_world" where
  "add_documents env new_chunks new_hash vs w =
     (if new_chunks = [] then (Inr (), vs, w)
      else if truthy new_hash \<and> document_hash vs = new_hash \<and> length (chunks vs) > 0
      then (Inr (), vs, w)
      else
        (let vs1 = vs\<lparr>chunks := [], index := []\<rparr>;
             texts = map content new_chunks;
             w1 = w\<lparr>encode_calls := encode_calls w @ [texts]\<rparr>
         in case encode env texts of
              Inl e \<Rightarrow> (Inl e, vs1, w1)
            | Inr embeddings \<Rightarrow>
                if length embeddings < length new_chunks
                then (Inl (Exn ''IndexError'' ''index out of bounds''), vs1, w1)
                else if list_ex (\<lambda>v. length v \<noteq> dimension vs) embeddings
                then (Inl (Exn ''AssertionError'' []), vs1, w1)
                else
                  (let embedded = map2 (\<lambda>c v. c\<lparr>embedding := Some v\<rparr>) new_chunks embeddings;
                       vs2 = vs1\<lparr>index := embeddings, chunks := embedded,
                                 document_hash := new_hash\<rparr>
                   in (Inr (), vs2, save_index env vs2 w1))))"

section \<open>Query processor\<close>

text \<open>
  \<open>try_except body handler\<close> is \<^verbatim>\<open>try: body except Exception as e: handler\<close>, and
  \<open>then_do\<close> runs the next statement unless the previous one raised.
\<close>

record search_result =
  chunk :: chunk
  score :: real
  rank :: nat














section \<open>Concrete registries, services and stores\<close>

text \<open>Small inputs on which the properties below are evaluated.\<close>

definition gemini_1 :: provider where
  "gemini_1 = \<lparr>name = ''gemini_1'', ptype = Gemini, api_key = ''key-1'',
                model = ''gemini-1.5-flash'', embedding_model = Some ''models/embedding-001''\<rparr>"

definition openai :: provider where
  "openai = \<lparr>name = ''openai'', ptype = OpenAI, api_key = ''key-2'',
              model = ''gpt-3.5-turbo'', embedding_model = Some ''text-embedding-ada-002''\<rparr>"

definition two_providers :: gateway where
  "two_providers = \<lparr>api_providers = [gemini_1, openai], current_provider_index = 0,
                     rate_limit_cooldown = Map.empty, local_llm_available = False\<rparr>"


definition silent :: exn where
  "silent = Exn ''Exception'' ''connection reset by peer''"



definition all_down :: env where
  "all_down = \<lparr>local_text = (2, Inl silent), local_embed = (2, Inl silent),
                vendor_text = (\<lambda>p. (30, Inl silent)),
                vendor_embed = (\<lambda>p. (30, Inl silent))\<rparr>"


definition at_time :: "real \<Rightarrow> world" where
  "at_time t = \<lparr>now = t, calls = []\<rparr>"

definition grace_chunk :: chunk where
  "grace_chunk = \<lparr>chunk_id = ''chunk_0'', content = ''The grace period is 30 days.'',
                   metadata = [], embedding = None\<rparr>"

definition fresh_store :: vector_store where
  "fresh_store = \<lparr>index = [], chunks = [], dimension = 2, document_hash = None\<rparr>"

definition unit_encoder :: store_env where
  "unit_encoder = \<lparr>encode = (\<lambda>texts. Inr (map (\<lambda>t. [1, 0]) texts)), save_ok = True\<rparr>"

definition nothing_encoded :: store_world where
  "nothing_encoded = \<lparr>encode_calls = [], saved = None\<rparr>"

section \<open>Auxiliary notions\<close>

text \<open>
  Two adjacent white-space characters somewhere in a string; an adapter outcome that is
  a result; the providers invoked between two states of the world.
\<close>

fun has_ws_pair :: "string \<Rightarrow> bool" where
  "has_ws_pair (c # d # cs) = ((is_space c \<and> is_space d) \<or> has_ws_pair (d # cs))"
| "has_ws_pair _ = False"

definition succeeds :: "'r outcome option \<Rightarrow> bool" where
  "succeeds x = (case x of Some (elapsed, Inr result) \<Rightarrow> True | _ \<Rightarrow> False)"

definition attempted :: "world \<Rightarrow> world \<Rightarrow> nat list" where
  "attempted w w' = drop (length (calls w)) (calls w')"

chapter \<open>Properties\<close>

section \<open>Shape of a post-processed answer\<close>

lemma sub_runs_head: "\<not> p y \<Longrightarrow> sub_runs p (y # ys) = y # sub_runs p ys"
  by simp

lemma dropWhile_head: "dropWhile p xs = [] \<or> (\<exists>y ys. dropWhile p xs = y # ys \<and> \<not> p y)"
proof (cases "dropWhile p xs")
  case Nil
  then show ?thesis by simp
next
  case (Cons y ys)
  then have "dropWhile p xs \<noteq> []" by simp
  then have "\<not> p (hd (dropWhile p xs))" by (rule hd_dropWhile)
  with Cons show ?thesis by simp
qed

lemma sub_runs_no_ws_pair: "\<not> has_ws_pair (sub_runs is_space s)"
proof (induction is_space s rule: sub_runs.induct)
  case 1
  show ?case by simp
next
  case (2 c cs)
  show ?case
  proof (cases "is_space c")
    case True
    from dropWhile_head[of is_space cs] show ?thesis
    proof
      assume e: "dropWhile is_space cs = []"
      have "sub_runs is_space (c # cs) = CHR '' '' # sub_runs is_space (dropWhile is_space cs)"
        using True by simp
      then have "sub_runs is_space (c # cs) = [CHR '' '']" by (simp only: e sub_runs.simps)
      then show ?thesis by simp
    next
      assume "\<exists>y ys. dropWhile is_space cs = y # ys \<and> \<not> is_space y"
      then obtain y ys where d: "dropWhile is_space cs = y # ys" and ny: "\<not> is_space y" by blast
      from 2(1)[OF True] d ny have "\<not> has_ws_pair (y # sub_runs is_space ys)" by simp
      with True d ny show ?thesis by simp
    qed
  next
    case False
    with 2(2) have ih: "\<not> has_ws_pair (sub_runs is_space cs)" by simp
    from False ih show ?thesis by (cases "sub_runs is_space cs") auto
  qed
qed

lemma sub_runs_only_blank:
  "c \<in> set (sub_runs is_space s) \<Longrightarrow> is_space c \<Longrightarrow> c = CHR '' ''"
proof (induction is_space s rule: sub_runs.induct)
  case 1
  then show ?case by simp
next
  case (2 d cs)
  then show ?case by (auto split: if_splits)
qed

lemma has_ws_pair_iff:
  "has_ws_pair xs \<longleftrightarrow> (\<exists>u c d v. xs = u @ c # d # v \<and> is_space c \<and> is_space d)"
proof (induction xs rule: has_ws_pair.induct)
  case (1 c d cs)
  show ?case
  proof
    assume "has_ws_pair (c # d # cs)"
    then consider "is_space c \<and> is_space d" | "has_ws_pair (d # cs)" by auto
    then show "\<exists>u c' d' v. c # d # cs = u @ c' # d' # v \<and> is_space c' \<and> is_space d'"
    proof cases
      case 1
      then have "c # d # cs = [] @ c # d # cs \<and> is_space c \<and> is_space d" by simp
      then show ?thesis by blast
    next
      case 2
      with 1 obtain u c' d' v where "d # cs = u @ c' # d' # v" "is_space c'" "is_space d'" by blast
      then have "c # d # cs = (c # u) @ c' # d' # v \<and> is_space c' \<and> is_space d'" by simp
      then show ?thesis by blast
    qed
  next
    assume "\<exists>u c' d' v. c # d # cs = u @ c' # d' # v \<and> is_space c' \<and> is_space d'"
    then obtain u c' d' v where e: "c # d # cs = u @ c' # d' # v" and s: "is_space c'" "is_space d'"
      by blast
    show "has_ws_pair (c # d # cs)"
    proof (cases u)
      case Nil
      with e s show ?thesis by simp
    next
      case (Cons a u')
      with e have "d # cs = u' @ c' # d' # v" by simp
      with s 1 have "has_ws_pair (d # cs)" by blast
      then show ?thesis by simp
    qed
  qed
qed (auto simp: Cons_eq_append_conv)

lemma strip_sublist: "\<exists>a b. s = a @ strip s @ b"
proof -
  let ?m = "dropWhile is_space s"
  have 1: "s = takeWhile is_space s @ ?m" by simp
  have "rev ?m = takeWhile is_space (rev ?m) @ dropWhile is_space (rev ?m)" by simp
  then have "?m = rev (dropWhile is_space (rev ?m)) @ rev (takeWhile is_space (rev ?m))"
    by (metis rev_append rev_rev_ident)
  then have "?m = strip s @ rev (takeWhile is_space (rev ?m))" by (simp add: strip_def)
  with 1 have "s = takeWhile is_space s @ strip s @ rev (takeWhile is_space (rev ?m))" by simp
  then show ?thesis by blast
qed

lemma dropWhile_keeps_last:
  "xs \<noteq> [] \<Longrightarrow> \<not> p (last xs) \<Longrightarrow> dropWhile p xs \<noteq> [] \<and> last (dropWhile p xs) = last xs"
  by (induction xs) (auto split: if_splits)

lemma strip_keeps_last:
  assumes "s \<noteq> []" "\<not> is_space (last s)"
  shows "strip s \<noteq> [] \<and> last (strip s) = last s"
proof -
  let ?m = "dropWhile is_space s"
  from assms have m: "?m \<noteq> []" "last ?m = last s"
    using dropWhile_keeps_last[of s is_space] by auto
  then have "hd (rev ?m) = last s" by (simp add: hd_rev)
  with m assms have "dropWhile is_space (rev ?m) = rev ?m"
    by (cases "rev ?m") auto
  then have "strip s = ?m" by (simp add: strip_def)
  with m show ?thesis by simp
qed

lemma no_ws_pair_snoc: "\<not> has_ws_pair xs \<Longrightarrow> \<not> is_space c \<Longrightarrow> \<not> has_ws_pair (xs @ [c])"
  by (induction xs rule: has_ws_pair.induct) auto

lemma no_ws_pair_sublist: "\<not> has_ws_pair (a @ xs @ b) \<Longrightarrow> \<not> has_ws_pair xs"
  unfolding has_ws_pair_iff
proof
  assume n: "\<nexists>u c d v. a @ xs @ b = u @ c # d # v \<and> is_space c \<and> is_space d"
  assume "\<exists>u c d v. xs = u @ c # d # v \<and> is_space c \<and> is_space d"
  then obtain u c d v where "xs = u @ c # d # v" "is_space c" "is_space d" by blast
  then have "a @ xs @ b = (a @ u) @ c # d # (v @ b) \<and> is_space c \<and> is_space d" by simp
  with n show False by blast
qed

lemma punct_not_space: "c \<in> set [CHR ''.'', CHR ''!'', CHR ''?''] \<Longrightarrow> \<not> is_space c"
  by (auto simp: is_space_def)

text \<open>
  C10. For every input string, \<open>_post_process_answer\<close> returns a string without a
  newline character and without two consecutive spaces; a non-empty result ends with a
  full stop, an exclamation mark or a question mark; the empty string is mapped to itself.
\<close>

theorem post_process_answer_shape:
  "CHR 0x0A \<notin> set (post_process_answer answer)
   \<and> (\<nexists>u v. post_process_answer answer = u @ [CHR '' '', CHR '' ''] @ v)
   \<and> (post_process_answer answer \<noteq> [] \<longrightarrow>
        last (post_process_answer answer) \<in> {CHR ''.'', CHR ''!'', CHR ''?''})
   \<and> post_process_answer [] = []"
proof -
  define a3 where "a3 = sub_runs is_space (sub_runs (\<lambda>c. c = CHR 0x0A) (remove_prefix answer))"
  define a4 where "a4 = (if a3 \<noteq> [] \<and> \<not> endswith_punct a3 then a3 @ ''.'' else a3)"
  have r: "post_process_answer answer = strip a4"
    by (simp add: post_process_answer_def a3_def a4_def Let_def)
  have a3_pair: "\<not> has_ws_pair a3" unfolding a3_def by (rule sub_runs_no_ws_pair)
  have a3_blank: "\<And>c. c \<in> set a3 \<Longrightarrow> is_space c \<Longrightarrow> c = CHR '' ''"
    unfolding a3_def by (rule sub_runs_only_blank)
  have dot: "\<not> is_space CHR ''.''" by (simp add: is_space_def)
  have a4_pair: "\<not> has_ws_pair a4"
    using a3_pair no_ws_pair_snoc[OF a3_pair dot] by (simp add: a4_def)
  have a4_blank: "\<And>c. c \<in> set a4 \<Longrightarrow> is_space c \<Longrightarrow> c = CHR '' ''"
    using a3_blank dot by (auto simp: a4_def split: if_splits)
  have a4_last: "a4 = [] \<or> last a4 \<in> set [CHR ''.'', CHR ''!'', CHR ''?'']"
    by (auto simp: a4_def endswith_punct_def)
  obtain a b where sub: "a4 = a @ strip a4 @ b" using strip_sublist by blast
  have nl: "is_space (CHR 0x0A)" by (simp add: is_space_def)
  have c1: "CHR 0x0A \<notin> set (strip a4)"
  proof
    assume "CHR 0x0A \<in> set (strip a4)"
    then have "CHR 0x0A \<in> set a4" by (subst sub) simp
    from a4_blank[OF this nl] show False by simp
  qed
  have blank: "is_space CHR '' ''" by (simp add: is_space_def)
  have np: "\<not> has_ws_pair (strip a4)"
    using a4_pair sub no_ws_pair_sublist[of a "strip a4" b] by simp
  have c2: "\<nexists>u v. strip a4 = u @ [CHR '' '', CHR '' ''] @ v"
  proof
    assume "\<exists>u v. strip a4 = u @ [CHR '' '', CHR '' ''] @ v"
    then obtain u v where "strip a4 = u @ CHR '' '' # CHR '' '' # v" by auto
    with blank have "has_ws_pair (strip a4)" unfolding has_ws_pair_iff by blast
    with np show False by simp
  qed
  have c3: "strip a4 \<noteq> [] \<longrightarrow> last (strip a4) \<in> {CHR ''.'', CHR ''!'', CHR ''?''}"
  proof
    assume ne: "strip a4 \<noteq> []"
    then have "a4 \<noteq> []" by (auto simp: strip_def)
    with a4_last have l: "last a4 \<in> set [CHR ''.'', CHR ''!'', CHR ''?'']" by simp
    from strip_keeps_last[OF \<open>a4 \<noteq> []\<close> punct_not_space[OF l]] l
    show "last (strip a4) \<in> {CHR ''.'', CHR ''!'', CHR ''?''}" by simp
  qed
  have c4: "post_process_answer [] = []"
    by (simp add: post_process_answer_def remove_prefix_def lower_def strip_def)
  from c1 c2 c3 c4 show ?thesis unfolding r by blast
qed

theorem post_process_answer_shape_witness:
  "post_process_answer ''Answer:  The grace period is 30 days'' \<noteq> []
   \<and> last (post_process_answer ''Answer:  The grace period is 30 days'')
        \<in> {CHR ''.'', CHR ''!'', CHR ''?''}"
proof -
  have ne: "post_process_answer ''Answer:  The grace period is 30 days'' \<noteq> []"
    by code_simp
  with post_process_answer_shape[of "''Answer:  The grace period is 30 days''"]
  show ?thesis by blast
qed

section \<open>The provider loop, one iteration at a time\<close>

lemma available_fields [simp]:
  "api_providers (snd (is_provider_available p t g)) = api_providers g"
  "current_provider_index (snd (is_provider_available p t g)) = current_provider_index g"
  "local_llm_available (snd (is_provider_available p t g)) = local_llm_available g"
  by (simp_all add: is_provider_available_def split: option.splits)

lemma cooldown_fields [simp]:
  "api_providers (set_provider_cooldown p m t g) = api_providers g"
  "current_provider_index (set_provider_cooldown p m t g) = current_provider_index g"
  "local_llm_available (set_provider_cooldown p m t g) = local_llm_available g"
  by (simp_all add: set_provider_cooldown_def)

lemma next_provider_fields [simp]:
  "api_providers (next_provider g) = api_providers g"
  "current_provider_index (next_provider g) = (current_provider_index g + 1) mod length (api_providers g)"
  "rate_limit_cooldown (next_provider g) = rate_limit_cooldown g"
  "local_llm_available (next_provider g) = local_llm_available g"
  by (simp_all add: next_provider_def)

text \<open>One iteration of the loop, case by case.\<close>

lemma loop_skip_cooldown:
  assumes "current_provider_index g < length (api_providers g)"
      and "is_provider_available (api_providers g ! current_provider_index g) (now w) g = (False, g1)"
  shows "provider_loop attempt (Suc n) g w = provider_loop attempt n (next_provider g1) w"
  using assms by simp

lemma loop_skip_capability:
  assumes "current_provider_index g < length (api_providers g)"
      and "is_provider_available (api_providers g ! current_provider_index g) (now w) g = (True, g1)"
      and "attempt (api_providers g ! current_provider_index g) = None"
  shows "provider_loop attempt (Suc n) g w = provider_loop attempt n (next_provider g1) w"
  using assms by simp

lemma loop_success:
  assumes "current_provider_index g < length (api_providers g)"
      and "is_provider_available (api_providers g ! current_provider_index g) (now w) g = (True, g1)"
      and "attempt (api_providers g ! current_provider_index g) = Some (elapsed, Inr result)"
  shows "provider_loop attempt (Suc n) g w =
           (Inr result, g1, w\<lparr>now := now w + elapsed, calls := calls w @ [current_provider_index g]\<rparr>)"
  using assms by simp

lemma loop_failure:
  assumes "current_provider_index g < length (api_providers g)"
      and "is_provider_available (api_providers g ! current_provider_index g) (now w) g = (True, g1)"
      and "attempt (api_providers g ! current_provider_index g) = Some (elapsed, Inl e)"
  shows "provider_loop attempt (Suc n) g w =
           provider_loop attempt n
             (next_provider
               (if is_rate_limit_error (lower (exn_message e))
                then set_provider_cooldown (api_providers g ! current_provider_index g) 5
                       (now w + elapsed) g1
                else g1))
             (w\<lparr>now := now w + elapsed, calls := calls w @ [current_provider_index g]\<rparr>)"
  using assms by (simp add: Let_def)

declare provider_loop.simps(2) [simp del]

lemma loop_step_cases:
  assumes "current_provider_index g < length (api_providers g)"
  obtains
    (cooldown) g1 where
      "is_provider_available (api_providers g ! current_provider_index g) (now w) g = (False, g1)"
  | (capability) g1 where
      "is_provider_available (api_providers g ! current_provider_index g) (now w) g = (True, g1)"
      "attempt (api_providers g ! current_provider_index g) = None"
  | (success) g1 elapsed result where
      "is_provider_available (api_providers g ! current_provider_index g) (now w) g = (True, g1)"
      "attempt (api_providers g ! current_provider_index g) = Some (elapsed, Inr result)"
  | (failure) g1 elapsed e where
      "is_provider_available (api_providers g ! current_provider_index g) (now w) g = (True, g1)"
      "attempt (api_providers g ! current_provider_index g) = Some (elapsed, Inl e)"
proof -
  obtain b g1 where a: "is_provider_available (api_providers g ! current_provider_index g) (now w) g = (b, g1)"
    by (cases "is_provider_available (api_providers g ! current_provider_index g) (now w) g") auto
  show thesis
  proof (cases b)
    case False
    with a cooldown show thesis by simp
  next
    case True
    show thesis
    proof (cases "attempt (api_providers g ! current_provider_index g)")
      case None
      with a True capability show thesis by simp
    next
      case (Some x)
      obtain elapsed outcome where x: "x = (elapsed, outcome)" by (cases x) auto
      show thesis
      proof (cases outcome)
        case (Inl e)
        with a True Some x failure show thesis by simp
      next
        case (Inr r)
        with a True Some x success show thesis by simp
      qed
    qed
  qed
qed

lemma available_snd:
  "is_provider_available p t g = (b, g1) \<Longrightarrow>
     api_providers g1 = api_providers g \<and> current_provider_index g1 = current_provider_index g
     \<and> local_llm_available g1 = local_llm_available g"
  using available_fields[of p t g] by simp

lemma next_provider_in_range:
  assumes "api_providers g1 = api_providers g" "current_provider_index g < length (api_providers g)"
  shows "current_provider_index (next_provider g1) < length (api_providers (next_provider g1))"
proof -
  from assms have "api_providers g1 \<noteq> []" by auto
  then show ?thesis by simp
qed

lemma rotate_step: "(Suc c mod N + n) mod N = Suc (c + n) mod N"
  by (simp add: mod_add_left_eq)

lemma loop_cursor:
  assumes "current_provider_index g < length (api_providers g)"
      and "provider_loop attempt n g w = (res, g', w')"
  shows "api_providers g' = api_providers g
         \<and> current_provider_index g' < length (api_providers g)
         \<and> prefix (calls w) (calls w')
         \<and> (\<forall>e. res = Inl e \<longrightarrow> e = all_providers_failed \<and>
                current_provider_index g' = (current_provider_index g + n) mod length (api_providers g))
         \<and> (\<forall>r. res = Inr r \<longrightarrow> length (calls w) < length (calls w') \<and>
                last (calls w') = current_provider_index g' \<and>
                (\<exists>elapsed. attempt (api_providers g ! current_provider_index g')
                   = Some (elapsed, Inr r)))"
  using assms
proof (induction n arbitrary: g w)
  case 0
  then show ?case by auto
next
  case (Suc n)
  let ?N = "length (api_providers g)"
  from Suc.prems(1) show ?case
  proof (cases rule: loop_step_cases[where w = w and attempt = attempt])
    case (cooldown g1)
    note f = available_snd[OF cooldown]
    from Suc.prems(1) f have c: "current_provider_index (next_provider g1) < length (api_providers (next_provider g1))"
      by (intro next_provider_in_range[of g1 g]) simp_all
    have "provider_loop attempt n (next_provider g1) w = (res, g', w')"
      using Suc.prems(2) unfolding loop_skip_cooldown[OF Suc.prems(1) cooldown] .
    from Suc.IH[OF c this] f show ?thesis by (simp add: rotate_step)
  next
    case (capability g1)
    note f = available_snd[OF capability(1)]
    from Suc.prems(1) f have c: "current_provider_index (next_provider g1) < length (api_providers (next_provider g1))"
      by (intro next_provider_in_range[of g1 g]) simp_all
    have "provider_loop attempt n (next_provider g1) w = (res, g', w')"
      using Suc.prems(2) unfolding loop_skip_capability[where attempt = attempt, OF Suc.prems(1) capability] .
    from Suc.IH[OF c this] f show ?thesis by (simp add: rotate_step)
  next
    case (success g1 elapsed result)
    note f = available_snd[OF success(1)]
    from Suc.prems(2)[unfolded loop_success[where attempt = attempt, OF Suc.prems(1) success]]
    have "res = Inr result" "g' = g1"
         "w' = w\<lparr>now := now w + elapsed, calls := calls w @ [current_provider_index g]\<rparr>" by simp_all
    with f Suc.prems(1) success(2) show ?thesis by simp
  next
    case (failure g1 elapsed e)
    note f = available_snd[OF failure(1)]
    let ?g2 = "if is_rate_limit_error (lower (exn_message e))
                then set_provider_cooldown (api_providers g ! current_provider_index g) 5
                       (now w + elapsed) g1
                else g1"
    let ?w1 = "w\<lparr>now := now w + elapsed, calls := calls w @ [current_provider_index g]\<rparr>"
    from f have g2: "api_providers ?g2 = api_providers g"
        "current_provider_index ?g2 = current_provider_index g" by simp_all
    from Suc.prems(1) g2 have c: "current_provider_index (next_provider ?g2) < length (api_providers (next_provider ?g2))"
      by (intro next_provider_in_range[of ?g2 g])
    have "provider_loop attempt n (next_provider ?g2) ?w1 = (res, g', w')"
      using Suc.prems(2) unfolding loop_failure[where attempt = attempt, OF Suc.prems(1) failure] .
    from Suc.IH[OF c this] show ?thesis unfolding next_provider_fields g2 by (auto simp: rotate_step dest: append_prefixD)
  qed
qed

section \<open>Exhaustion\<close>

lemma loop_result:
  obtains res g' w' where "provider_loop attempt n g w = (res, g', w')"
  by (cases "provider_loop attempt n g w") auto

lemma loop_only_terminal_error:
  assumes wf: "current_provider_index g < length (api_providers g) \<or> n = 0"
      and r: "provider_loop attempt n g w = (Inl e, g', w')"
  shows "e = all_providers_failed"
proof (cases n)
  case 0
  with r show ?thesis by simp
next
  case (Suc m)
  with wf have c: "current_provider_index g < length (api_providers g)" by simp
  from loop_cursor[OF c r] show ?thesis by simp
qed

lemma loop_all_attempts_fail:
  assumes wf: "current_provider_index g < length (api_providers g) \<or> n = 0"
      and r: "provider_loop attempt n g w = (res, g', w')"
      and fails: "\<forall>i\<in>set (attempted w w'). \<not> succeeds (attempt (api_providers g ! i))"
  shows "res = Inl all_providers_failed"
proof (cases res)
  case (Inl e)
  with r loop_only_terminal_error[OF wf] show ?thesis by simp
next
  case (Inr v)
  have c: "current_provider_index g < length (api_providers g)"
  proof (cases n)
    case 0
    with r Inr show ?thesis by simp
  next
    case (Suc m)
    with wf show ?thesis by simp
  qed
  from loop_cursor[OF c r] Inr obtain elapsed where
    len: "length (calls w) < length (calls w')" and
    a: "attempt (api_providers g ! last (calls w')) = Some (elapsed, Inr v)" by auto
  from len have "attempted w w' \<noteq> []" by (simp add: attempted_def)
  moreover from len have "last (attempted w w') = last (calls w')"
    by (simp add: attempted_def)
  ultimately have "last (calls w') \<in> set (attempted w w')" by (metis last_in_set)
  with fails a show ?thesis by (auto simp: succeeds_def)
qed

text \<open>
  C6. If the local provider is unavailable or fails and every registry provider
  attempted during the call fails (the others being skipped), \<open>generate_text\<close> and
  \<open>generate_embeddings\<close> raise the terminal exception built at lines 174 and 224, and no
  other exception ever leaves either call. The cursor is assumed to lie inside the
  registry, as it does in every gateway reachable from \<open>__init__\<close>.
\<close>

theorem exhaustion_raises_terminal_error:
  assumes wf: "current_provider_index g < length (api_providers g) \<or> api_providers g = []"
  shows
    "((local_llm_available g \<longrightarrow> isl (snd (local_text env))) \<and>
      (\<forall>i\<in>set (attempted w (snd (snd (generate_text env g w)))).
          \<not> succeeds (text_attempt env (api_providers g ! i)))
        \<longrightarrow> fst (generate_text env g w) = Inl all_providers_failed)
     \<and> ((local_llm_available g \<longrightarrow> isl (snd (local_generate_embeddings env))) \<and>
      (\<forall>i\<in>set (attempted w (snd (snd (generate_embeddings env g w)))).
          \<not> succeeds (embed_attempt env (api_providers g ! i)))
        \<longrightarrow> fst (generate_embeddings env g w) = Inl all_providers_failed)
     \<and> (\<forall>e. fst (generate_text env g w) = Inl e \<longrightarrow> e = all_providers_failed)
     \<and> (\<forall>e. fst (generate_embeddings env g w) = Inl e \<longrightarrow> e = all_providers_failed)"
proof -
  let ?N = "length (api_providers g)"
  from wf have wf': "current_provider_index g < length (api_providers g) \<or> ?N = 0" by simp
  have text_fail: "fst (generate_text env g w) = Inl all_providers_failed"
    if loc: "local_llm_available g \<longrightarrow> isl (snd (local_text env))"
    and fails: "\<forall>i\<in>set (attempted w (snd (snd (generate_text env g w)))).
                  \<not> succeeds (text_attempt env (api_providers g ! i))"
  proof -
    obtain elapsed out where l: "local_text env = (elapsed, out)" by (cases "local_text env") auto
    define w1 where "w1 = (if local_llm_available g then w\<lparr>now := now w + elapsed\<rparr> else w)"
    have gt: "generate_text env g w = provider_loop (text_attempt env) ?N g w1"
      using loc l by (auto simp: generate_text_def w1_def isl_def)
    have same: "attempted w1 = attempted w" by (rule ext) (simp add: attempted_def w1_def)
    obtain res g' w' where r: "provider_loop (text_attempt env) ?N g w1 = (res, g', w')"
      by (rule loop_result)
    from fails have "\<forall>i\<in>set (attempted w1 w'). \<not> succeeds (text_attempt env (api_providers g ! i))"
      by (simp add: gt r same)
    from loop_all_attempts_fail[OF wf' r this] show ?thesis by (simp add: gt r)
  qed
  have embed_fail: "fst (generate_embeddings env g w) = Inl all_providers_failed"
    if loc: "local_llm_available g \<longrightarrow> isl (snd (local_generate_embeddings env))"
    and fails: "\<forall>i\<in>set (attempted w (snd (snd (generate_embeddings env g w)))).
                  \<not> succeeds (embed_attempt env (api_providers g ! i))"
  proof -
    obtain elapsed out where l: "local_generate_embeddings env = (elapsed, out)"
      by (cases "local_generate_embeddings env") auto
    define w1 where "w1 = (if local_llm_available g then w\<lparr>now := now w + elapsed\<rparr> else w)"
    have gt: "generate_embeddings env g w = provider_loop (embed_attempt env) ?N g w1"
      using loc l by (auto simp: generate_embeddings_def w1_def isl_def)
    have same: "attempted w1 = attempted w" by (rule ext) (simp add: attempted_def w1_def)
    obtain res g' w' where r: "provider_loop (embed_attempt env) ?N g w1 = (res, g', w')"
      by (rule loop_result)
    from fails have "\<forall>i\<in>set (attempted w1 w'). \<not> succeeds (embed_attempt env (api_providers g ! i))"
      by (simp add: gt r same)
    from loop_all_attempts_fail[OF wf' r this] show ?thesis by (simp add: gt r)
  qed
  have text_only: "e = all_providers_failed" if e: "fst (generate_text env g w) = Inl e" for e
  proof -
    obtain elapsed out where l: "local_text env = (elapsed, out)" by (cases "local_text env") auto
    obtain res g' w' where
      r: "provider_loop (text_attempt env) ?N g w = (res, g', w')" by (rule loop_result)
    obtain res1 g1 w1 where
      r1: "provider_loop (text_attempt env) ?N g (w\<lparr>now := now w + elapsed\<rparr>) = (res1, g1, w1)"
      by (rule loop_result)
    from e l r r1 have "res = Inl e \<or> res1 = Inl e"
      by (auto simp: generate_text_def Let_def split: if_splits sum.splits)
    with loop_only_terminal_error[OF wf'] r r1 show ?thesis by blast
  qed
  have embed_only: "e = all_providers_failed" if e: "fst (generate_embeddings env g w) = Inl e" for e
  proof -
    obtain elapsed out where l: "local_generate_embeddings env = (elapsed, out)"
      by (cases "local_generate_embeddings env") auto
    obtain res g' w' where
      r: "provider_loop (embed_attempt env) ?N g w = (res, g', w')" by (rule loop_result)
    obtain res1 g1 w1 where
      r1: "provider_loop (embed_attempt env) ?N g (w\<lparr>now := now w + elapsed\<rparr>) = (res1, g1, w1)"
      by (rule loop_result)
    from e l r r1 have "res = Inl e \<or> res1 = Inl e"
      by (auto simp: generate_embeddings_def Let_def split: if_splits sum.splits)
    with loop_only_terminal_error[OF wf'] r r1 show ?thesis by blast
  qed
  from text_fail embed_fail text_only embed_only show ?thesis by blast
qed

lemma silent_quiet: "\<not> is_rate_limit_error (lower (exn_message silent))"
  by code_simp

theorem exhaustion_raises_terminal_error_witness:
  "(current_provider_index two_providers < length (api_providers two_providers)
      \<or> api_providers two_providers = [])
   \<and> \<not> local_llm_available two_providers
   \<and> attempted (at_time 0) (snd (snd (generate_text all_down two_providers (at_time 0)))) = [0, 1]
   \<and> \<not> succeeds (text_attempt all_down (api_providers two_providers ! 0))
   \<and> \<not> succeeds (text_attempt all_down (api_providers two_providers ! 1))
   \<and> fst (generate_text all_down two_providers (at_time 0)) = Inl all_providers_failed
   \<and> attempted (at_time 0) (snd (snd (generate_embeddings all_down two_providers (at_time 0)))) = [0, 1]
   \<and> \<not> succeeds (embed_attempt all_down (api_providers two_providers ! 0))
   \<and> \<not> succeeds (embed_attempt all_down (api_providers two_providers ! 1))
   \<and> fst (generate_embeddings all_down two_providers (at_time 0)) = Inl all_providers_failed"
proof -
  have wf: "current_provider_index two_providers < length (api_providers two_providers)
      \<or> api_providers two_providers = []" by code_simp
  have l: "\<not> local_llm_available two_providers" by (simp add: two_providers_def)
  have a1: "attempted (at_time 0) (snd (snd (generate_text all_down two_providers (at_time 0)))) = [0, 1]"
    by code_simp
  have f1: "\<not> succeeds (text_attempt all_down (api_providers two_providers ! 0))"
           "\<not> succeeds (text_attempt all_down (api_providers two_providers ! 1))" by code_simp+
  have f2: "\<not> succeeds (embed_attempt all_down (api_providers two_providers ! 0))"
           "\<not> succeeds (embed_attempt all_down (api_providers two_providers ! 1))"
    by (simp_all add: succeeds_def embed_attempt_def two_providers_def gemini_1_def openai_def
          all_down_def generate_gemini_embeddings_def generate_openai_embeddings_def)
  have a2: "attempted (at_time 0) (snd (snd (generate_embeddings all_down two_providers (at_time 0)))) = [0, 1]"
    by (simp add: generate_embeddings_def two_providers_def at_time_def attempted_def
          provider_loop.simps(2) is_provider_available_def next_provider_def embed_attempt_def
          gemini_1_def openai_def all_down_def generate_gemini_embeddings_def
          generate_openai_embeddings_def silent_quiet)
  from exhaustion_raises_terminal_error[OF wf, of all_down "at_time 0"] l a1 a2 f1 f2 wf
  show ?thesis by simp
qed

section \<open>The rotation cursor\<close>






section \<open>Fallback completeness\<close>








section \<open>Classification of failures\<close>





section \<open>Cooldown\<close>
















section \<open>The document cache\<close>

lemma add_documents_skip:
  assumes "document_hash vs = Some h" "h \<noteq> []" "chunks vs \<noteq> []"
  shows "add_documents env cs (Some h) vs w = (Inr (), vs, w)"
  using assms by (simp add: add_documents_def truthy_def)

lemma add_documents_success:
  assumes "cs \<noteq> []" "h \<noteq> []" "add_documents env cs (Some h) vs0 w0 = (Inr (), vs1, w1)"
  shows "document_hash vs1 = Some h \<and> chunks vs1 \<noteq> []"
  using assms
  by (auto simp: add_documents_def Let_def truthy_def split: if_splits sum.splits)

text \<open>
  C1. When \<open>add_documents\<close> is called with a content hash (a non-empty string, as the
  MD5 digest passed by \<open>run_query_internal\<close> always is) that equals the recorded hash
  while the chunk store is non-empty, it returns at once: the store (chunks, index and
  recorded hash) and the log of calls to the embedding service are exactly what they were.
  In particular a second call with the same hash, after a first call that stored a
  non-empty list of chunks under it, changes nothing and embeds nothing, whatever chunks
  and whatever embedding service it is given.
\<close>

theorem add_documents_same_hash_skips:
  "(document_hash vs = Some h \<and> h \<noteq> [] \<and> chunks vs \<noteq> [] \<longrightarrow>
      add_documents env cs (Some h) vs w = (Inr (), vs, w))
   \<and> (first_chunks \<noteq> [] \<and> h \<noteq> [] \<and>
        add_documents first_env first_chunks (Some h) store seen = (Inr (), store', seen') \<longrightarrow>
      add_documents second_env second_chunks (Some h) store' seen' = (Inr (), store', seen'))"
proof (intro conjI impI)
  assume "document_hash vs = Some h \<and> h \<noteq> [] \<and> chunks vs \<noteq> []"
  then show "add_documents env cs (Some h) vs w = (Inr (), vs, w)"
    by (simp add: add_documents_skip)
next
  assume a: "first_chunks \<noteq> [] \<and> h \<noteq> [] \<and>
             add_documents first_env first_chunks (Some h) store seen = (Inr (), store', seen')"
  then have "document_hash store' = Some h \<and> chunks store' \<noteq> []"
    using add_documents_success[of first_chunks h first_env store seen store' seen'] by simp
  with a show "add_documents second_env second_chunks (Some h) store' seen' = (Inr (), store', seen')"
    by (simp add: add_documents_skip)
qed

theorem add_documents_same_hash_skips_witness:
  "[grace_chunk] \<noteq> [] \<and> ''9e107d9d372bb682'' \<noteq> []
   \<and> fst (add_documents unit_encoder [grace_chunk] (Some ''9e107d9d372bb682'')
            fresh_store nothing_encoded) = Inr ()
   \<and> encode_calls (snd (snd (add_documents unit_encoder [grace_chunk] (Some ''9e107d9d372bb682'')
            fresh_store nothing_encoded))) = [[''The grace period is 30 days.'']]
   \<and> index (fst (snd (add_documents unit_encoder [grace_chunk] (Some ''9e107d9d372bb682'')
            fresh_store nothing_encoded))) = [[1, 0]]
   \<and> add_documents unit_encoder [grace_chunk] (Some ''9e107d9d372bb682'')
        (fst (snd (add_documents unit_encoder [grace_chunk] (Some ''9e107d9d372bb682'')
            fresh_store nothing_encoded)))
        (snd (snd (add_documents unit_encoder [grace_chunk] (Some ''9e107d9d372bb682'')
            fresh_store nothing_encoded)))
       = (Inr (),
          fst (snd (add_documents unit_encoder [grace_chunk] (Some ''9e107d9d372bb682'')
            fresh_store nothing_encoded)),
          snd (snd (add_documents unit_encoder [grace_chunk] (Some ''9e107d9d372bb682'')
            fresh_store nothing_encoded)))"
proof -
  let ?first = "add_documents unit_encoder [grace_chunk] (Some ''9e107d9d372bb682'')
                  fresh_store nothing_encoded"
  have ok: "fst ?first = Inr ()"
    by (simp add: add_documents_def truthy_def unit_encoder_def fresh_store_def
          nothing_encoded_def grace_chunk_def save_index_def Let_def)
  have log: "encode_calls (snd (snd ?first)) = [[''The grace period is 30 days.'']]"
    by (simp add: add_documents_def truthy_def unit_encoder_def fresh_store_def
          nothing_encoded_def grace_chunk_def save_index_def Let_def)
  have idx: "index (fst (snd ?first)) = [[1, 0]]"
    by (simp add: add_documents_def truthy_def unit_encoder_def fresh_store_def
          nothing_encoded_def grace_chunk_def save_index_def Let_def)
  from ok have eq: "?first = (Inr (), fst (snd ?first), snd (snd ?first))"
    by (metis prod.collapse)
  have ne: "[grace_chunk] \<noteq> []" "''9e107d9d372bb682'' \<noteq> []" by simp_all
  from add_documents_same_hash_skips[where h = "''9e107d9d372bb682''"
         and first_chunks = "[grace_chunk]" and first_env = unit_encoder
         and store = fresh_store and seen = nothing_encoded
         and store' = "fst (snd ?first)" and seen' = "snd (snd ?first)"
         and second_env = unit_encoder and second_chunks = "[grace_chunk]", THEN conjunct2]
       ne eq
  have "add_documents unit_encoder [grace_chunk] (Some ''9e107d9d372bb682'')
          (fst (snd ?first)) (snd (snd ?first))
        = (Inr (), fst (snd ?first), snd (snd ?first))" by blast
  with ne ok log idx show ?thesis by simp
qed

section \<open>Normalisation\<close>










section \<open>The query processor never raises\<close>







end
